theory Spec2Isabelle
  imports Main "HOL-Library.AList"
begin

section \<open>The module-use collector of \<^verbatim>\<open>dependency_collector.py\<close>\<close>

text \<open>
  \<^verbatim>\<open>ModuleUseCollector\<close> is an \<^verbatim>\<open>ast.NodeVisitor\<close> that walks a parsed Python file and
  records every read of a name that an import statement bound to one target module.
  The development below embeds the class function by function: the strings it computes
  with, the \<^verbatim>\<open>ChainMap\<close> of scopes, the five \<^verbatim>\<open>visit_*\<close> methods and the generic
  traversal of \<^verbatim>\<open>ast.NodeVisitor\<close>.
\<close>

subsection \<open>Strings\<close>

text \<open>\<^verbatim>\<open>s.split(c)\<close> for a one-character separator: never empty, \<^verbatim>\<open>''.split('.') == ['']\<close>.\<close>

fun str_split :: "char \<Rightarrow> string \<Rightarrow> string list" where
  "str_split c [] = [[]]"
| "str_split c (x # xs) =
     (if x = c then [] # str_split c xs
      else (x # hd (str_split c xs)) # tl (str_split c xs))"

text \<open>\<^verbatim>\<open>sep.join(xs)\<close>.\<close>

fun str_join :: "string \<Rightarrow> string list \<Rightarrow> string" where
  "str_join sep [] = []"
| "str_join sep [x] = x"
| "str_join sep (x # y # ys) = x @ sep @ str_join sep (y # ys)"

text \<open>
  \<^verbatim>\<open>s.rpartition(c)\<close>: the text before the last \<^verbatim>\<open>c\<close>, the separator, the text after it;
  \<^verbatim>\<open>('', '', s)\<close> when \<^verbatim>\<open>c\<close> does not occur.
\<close>

definition str_rpartition :: "char \<Rightarrow> string \<Rightarrow> string \<times> string \<times> string" where
  "str_rpartition c s =
     (if c \<in> set s
      then (let t = rev (takeWhile (\<lambda>x. x \<noteq> c) (rev s))
            in (take (length s - length t - 1) s, [c], t))
      else ([], [], s))"

text \<open>
  The slice \<^verbatim>\<open>xs[:-k]\<close> for \<^verbatim>\<open>k >= 1\<close>: the stop index \<^verbatim>\<open>len(xs) - k\<close> is clipped at 0,
  so a \<^verbatim>\<open>k\<close> that reaches the length gives the empty list.
\<close>

definition slice_to_minus :: "int \<Rightarrow> 'a list \<Rightarrow> 'a list" where
  "slice_to_minus k xs = take (nat (int (length xs) - k)) xs"

subsection \<open>Values, dictionaries and the chain of scopes\<close>

text \<open>
  A scope maps a bound name to the dotted name it was imported as, or to \<^verbatim>\<open>None\<close> when
  the name is rebound for another purpose in that scope.
\<close>

datatype pyval = PyNone | Str string

text \<open>
  A \<^verbatim>\<open>dict\<close> keeps its keys in insertion order; assigning to a key that is present
  replaces the value in place. That is \<^const>\<open>AList.update\<close> on an association list.
\<close>

type_synonym pydict = "(string \<times> pyval) list"

text \<open>A scope is a plain \<^verbatim>\<open>dict\<close> or a \<^verbatim>\<open>MappingProxyType\<close> (\<^verbatim>\<open>readonlydict\<close>) over one.\<close>

datatype frame = Dict pydict | ReadOnlyDict pydict

fun frame_items :: "frame \<Rightarrow> pydict" where
  "frame_items (Dict d) = d"
| "frame_items (ReadOnlyDict d) = d"

datatype error = TypeError | AttributeError | IndexError

text \<open>
  \<^verbatim>\<open>collections.ChainMap\<close>: the list \<^verbatim>\<open>maps\<close>, searched from \<^verbatim>\<open>maps[0]\<close>; the constructor
  puts one empty \<^verbatim>\<open>dict\<close> where no map is given (\<^verbatim>\<open>list(maps) or [{}]\<close>).
\<close>

type_synonym chainmap = "frame list"

definition ChainMap :: "frame list \<Rightarrow> chainmap" where
  "ChainMap ms = (if ms = [] then [Dict []] else ms)"

definition new_child :: "frame \<Rightarrow> chainmap \<Rightarrow> chainmap" where
  "new_child m c = ChainMap (m # c)"

definition parents :: "chainmap \<Rightarrow> chainmap" where
  "parents c = ChainMap (drop 1 c)"

text \<open>
  \<^verbatim>\<open>ChainMap.get(key)\<close> with the default \<^verbatim>\<open>None\<close>: the value in the first map that has
  the key, which may itself be \<^verbatim>\<open>None\<close>.
\<close>

fun chain_get :: "chainmap \<Rightarrow> string \<Rightarrow> pyval" where
  "chain_get [] k = PyNone"
| "chain_get (m # ms) k =
     (case map_of (frame_items m) k of Some v \<Rightarrow> v | None \<Rightarrow> chain_get ms k)"

text \<open>
  \<^verbatim>\<open>ChainMap.__setitem__\<close> is \<^verbatim>\<open>self.maps[0][key] = value\<close>: a write to the first map
  only, which raises \<^verbatim>\<open>TypeError\<close> on a mapping proxy.
\<close>

fun chain_setitem :: "chainmap \<Rightarrow> string \<Rightarrow> pyval \<Rightarrow> error + chainmap" where
  "chain_setitem [] k v = Inl IndexError"
| "chain_setitem (Dict d # ms) k v = Inr (Dict (AList.update k v d) # ms)"
| "chain_setitem (ReadOnlyDict d # ms) k v = Inl TypeError"

text \<open>
  \<^verbatim>\<open>ChainMap.update(other)\<close> is \<^verbatim>\<open>MutableMapping.update\<close>: one \<^verbatim>\<open>__setitem__\<close> per item of
  \<^verbatim>\<open>other\<close>, in order, and the first exception ends it. An empty \<^verbatim>\<open>other\<close> writes nothing.
\<close>

fun chain_update :: "chainmap \<Rightarrow> pydict \<Rightarrow> error + chainmap" where
  "chain_update c [] = Inr c"
| "chain_update c ((k, v) # kvs) =
     (case chain_setitem c k v of Inl e \<Rightarrow> Inl e | Inr c' \<Rightarrow> chain_update c' kvs)"

text \<open>A dict comprehension: the items are stored one after the other into an empty dict.\<close>

definition dictcomp :: "(string \<times> pyval) list \<Rightarrow> pydict" where
  "dictcomp kvs = foldl (\<lambda>d kv. AList.update (fst kv) (snd kv) d) [] kvs"

subsection \<open>The syntax tree\<close>

text \<open>
  \<^verbatim>\<open>ast.alias\<close> has the imported \<^verbatim>\<open>name\<close> and an optional \<^verbatim>\<open>asname\<close>. The visitor
  dispatches on the class of a node, so the tree has one constructor for each class the
  collector has a method for, with the fields that method reads, and one constructor
  \<open>Other\<close> for every other class. \<^verbatim>\<open>generic_visit\<close> visits the child nodes of a node in
  the order of its fields; the constructors with children hold them in that order
  (for a function: arguments, body, decorators, return annotation).
\<close>

datatype ast_alias = Alias (name: string) (asname: "string option")

datatype expr_context = Load | Store | Del

datatype node =
    FunctionDef "node list"
  | Lambda "node list"
  | ClassDef "node list"
  | Import "ast_alias list"
  | ImportFrom "string option" "ast_alias list" int
  | Name string expr_context int
  | Other string "node list"

subsection \<open>The collector\<close>

text \<open>
  The four attributes \<^verbatim>\<open>__init__\<close> sets and no method assigns again are the parameters of
  a run; \<^verbatim>\<open>scopes\<close> and \<^verbatim>\<open>used_at\<close> are the state the methods update.
\<close>

record params =
  modulename :: string
  package :: string
  modulepackage :: string
  modulestem :: string

record collector =
  scopes :: chainmap
  used_at :: "(string \<times> string \<times> int) list"

definition init_params :: "string \<Rightarrow> string \<Rightarrow> params" where
  "init_params m p =
     (case str_rpartition CHR ''.'' m of
        (mp, _, ms) \<Rightarrow> \<lparr>modulename = m, package = p, modulepackage = mp, modulestem = ms\<rparr>)"

definition init_collector :: collector where
  "init_collector = \<lparr>scopes = ChainMap [], used_at = []\<rparr>"

text \<open>\<^verbatim>\<open>a.asname or a.name\<close>: the alias unless it is \<^verbatim>\<open>None\<close> or empty.\<close>

definition bound_name :: "ast_alias \<Rightarrow> string" where
  "bound_name a = (case asname a of None \<Rightarrow> name a | Some s \<Rightarrow> if s = [] then name a else s)"

text \<open>The dict that \<^verbatim>\<open>visit_Import\<close> passes to \<^verbatim>\<open>update\<close>.\<close>

definition import_bindings :: "params \<Rightarrow> ast_alias list \<Rightarrow> pydict" where
  "import_bindings P names =
     dictcomp (map (\<lambda>a. (bound_name a, Str (name a)))
                   (filter (\<lambda>a. name a = modulename P) names))"

definition set_scopes :: "collector \<Rightarrow> error + chainmap \<Rightarrow> error + collector" where
  "set_scopes st r = (case r of Inl e \<Rightarrow> Inl e | Inr c \<Rightarrow> Inr (st\<lparr>scopes := c\<rparr>))"

definition visit_Import :: "params \<Rightarrow> ast_alias list \<Rightarrow> collector \<Rightarrow> error + collector" where
  "visit_Import P names st =
     set_scopes st (chain_update (scopes st) (import_bindings P names))"

text \<open>
  The first half of \<^verbatim>\<open>visit_ImportFrom\<close>: the absolute name of the module imported from.
  \<^verbatim>\<open>node.module\<close> is \<^verbatim>\<open>None\<close> when nothing follows the dots.
\<close>

definition resolve_source :: "params \<Rightarrow> string option \<Rightarrow> int \<Rightarrow> string option" where
  "resolve_source P module level =
     (if level \<noteq> 0
      then (let pkg = (if level > 1
                       then str_join ''.'' (slice_to_minus (level - 1) (str_split CHR ''.'' (package P)))
                       else package P)
            in (case module of
                  None \<Rightarrow> Some pkg
                | Some s \<Rightarrow> if s = [] then Some pkg else Some (pkg @ ''.'' @ s)))
      else module)"

text \<open>The dict that \<^verbatim>\<open>visit_ImportFrom\<close> passes to \<^verbatim>\<open>update\<close>; empty where it passes none.\<close>

definition importfrom_bindings :: "params \<Rightarrow> string option \<Rightarrow> ast_alias list \<Rightarrow> int \<Rightarrow> pydict" where
  "importfrom_bindings P module names level =
     (let source = resolve_source P module level
      in if Some (modulename P) = source
         then dictcomp (map (\<lambda>a. (bound_name a, Str (modulename P @ ''.'' @ name a))) names)
         else if modulepackage P \<noteq> [] \<and> Some (modulepackage P) = source
         then dictcomp (map (\<lambda>a. (bound_name a, Str (modulename P)))
                            (filter (\<lambda>a. name a = modulestem P) names))
         else [])"

definition visit_ImportFrom ::
  "params \<Rightarrow> string option \<Rightarrow> ast_alias list \<Rightarrow> int \<Rightarrow> collector \<Rightarrow> error + collector" where
  "visit_ImportFrom P module names level st =
     set_scopes st (chain_update (scopes st) (importfrom_bindings P module names level))"

text \<open>
  \<^verbatim>\<open>visit_Name\<close>: a store or a deletion masks the name in the current scope, and the
  \<^verbatim>\<open>TypeError\<close> of a read-only scope is caught; a load appends a record when the chain
  gives a value other than \<^verbatim>\<open>None\<close>.
\<close>

definition visit_Name :: "string \<Rightarrow> expr_context \<Rightarrow> int \<Rightarrow> collector \<Rightarrow> error + collector" where
  "visit_Name ident ctx lineno st =
     (if ctx \<noteq> Load
      then (case chain_setitem (scopes st) ident PyNone of
              Inl e \<Rightarrow> if e = TypeError then Inr st else Inl e
            | Inr c \<Rightarrow> Inr (st\<lparr>scopes := c\<rparr>))
      else (case chain_get (scopes st) ident of
              PyNone \<Rightarrow> Inr st
            | Str imported_name \<Rightarrow>
                Inr (st\<lparr>used_at := used_at st @ [(imported_name, ident, lineno)]\<rparr>)))"

text \<open>
  \<^verbatim>\<open>NodeVisitor.visit\<close> calls the method named after the class of the node and
  \<^verbatim>\<open>generic_visit\<close> where there is none. \<^verbatim>\<open>visit_Lambda\<close> calls \<^verbatim>\<open>self.visit_Function\<close>,
  an attribute the class does not have. Neither \<^verbatim>\<open>visit_FunctionDef\<close> nor
  \<^verbatim>\<open>visit_ClassDef\<close> restores the scopes when the body raises.
\<close>

fun visit :: "params \<Rightarrow> node \<Rightarrow> collector \<Rightarrow> error + collector"
  and generic_visit :: "params \<Rightarrow> node list \<Rightarrow> collector \<Rightarrow> error + collector" where
  "visit P (FunctionDef cs) st =
     (case generic_visit P cs (st\<lparr>scopes := new_child (Dict []) (scopes st)\<rparr>) of
        Inl e \<Rightarrow> Inl e
      | Inr st' \<Rightarrow> Inr (st'\<lparr>scopes := parents (scopes st')\<rparr>))"
| "visit P (Lambda cs) st = Inl AttributeError"
| "visit P (ClassDef cs) st =
     (case generic_visit P cs (st\<lparr>scopes := new_child (ReadOnlyDict []) (scopes st)\<rparr>) of
        Inl e \<Rightarrow> Inl e
      | Inr st' \<Rightarrow> Inr (st'\<lparr>scopes := parents (scopes st')\<rparr>))"
| "visit P (Import names) st = visit_Import P names st"
| "visit P (ImportFrom module names level) st = visit_ImportFrom P module names level st"
| "visit P (Name ident ctx lineno) st = visit_Name ident ctx lineno st"
| "visit P (Other cls cs) st = generic_visit P cs st"
| "generic_visit P [] st = Inr st"
| "generic_visit P (c # cs) st =
     (case visit P c st of Inl e \<Rightarrow> Inl e | Inr st' \<Rightarrow> generic_visit P cs st')"

text \<open>
  One run: a fresh collector for the target module and the hosting package visits the
  tree, and the caller reads \<^verbatim>\<open>used_at\<close>.
\<close>

definition collect_uses :: "string \<Rightarrow> string \<Rightarrow> node \<Rightarrow> error + (string \<times> string \<times> int) list" where
  "collect_uses m p tree =
     (case visit (init_params m p) tree init_collector of
        Inl e \<Rightarrow> Inl e
      | Inr st \<Rightarrow> Inr (used_at st))"

subsection \<open>The programs the properties are checked on\<close>

text \<open>
  Each tree is what \<^verbatim>\<open>ast.parse\<close> gives for the source quoted above it, with the
  children of every node in field order; nodes without children that the collector has no
  method for (\<^verbatim>\<open>arguments\<close>, \<^verbatim>\<open>Constant\<close>, \<^verbatim>\<open>Load\<close>) are kept as leaves.
\<close>

text \<open>\<^verbatim>\<open>import foo.bar\<close> / \<^verbatim>\<open>foo.bar.baz()\<close>\<close>

definition scenario_A :: node where
  "scenario_A =
     Other ''Module''
       [Import [Alias ''foo.bar'' None],
        Other ''Expr''
          [Other ''Call''
             [Other ''Attribute''
                [Other ''Attribute'' [Name ''foo'' Load 2, Other ''Load'' []],
                 Other ''Load'' []]]]]"

text \<open>\<^verbatim>\<open>import foo.bar as fb\<close> / \<^verbatim>\<open>fb.baz()\<close>\<close>

definition scenario_A_aliased :: node where
  "scenario_A_aliased =
     Other ''Module''
       [Import [Alias ''foo.bar'' (Some ''fb'')],
        Other ''Expr''
          [Other ''Call''
             [Other ''Attribute'' [Name ''fb'' Load 2, Other ''Load'' []]]]]"

text \<open>\<^verbatim>\<open>from . import sub\<close> / \<^verbatim>\<open>sub.value\<close>\<close>

definition scenario_B :: node where
  "scenario_B =
     Other ''Module''
       [ImportFrom None [Alias ''sub'' None] 1,
        Other ''Expr'' [Other ''Attribute'' [Name ''sub'' Load 2, Other ''Load'' []]]]"

text \<open>
  \<^verbatim>\<open>import foo.bar as fb\<close> / \<^verbatim>\<open>def f():\<close> / \<^verbatim>\<open>    fb = 5\<close> / \<^verbatim>\<open>    return fb\<close> /
  \<^verbatim>\<open>fb.attr\<close>
\<close>

definition scenario_C :: node where
  "scenario_C =
     Other ''Module''
       [Import [Alias ''foo.bar'' (Some ''fb'')],
        FunctionDef
          [Other ''arguments'' [],
           Other ''Assign'' [Name ''fb'' Store 3, Other ''Constant'' []],
           Other ''Return'' [Name ''fb'' Load 4]],
        Other ''Expr'' [Other ''Attribute'' [Name ''fb'' Load 5, Other ''Load'' []]]]"

text \<open>
  \<^verbatim>\<open>import foo.bar as fb\<close> / \<^verbatim>\<open>class C:\<close> / \<^verbatim>\<open>    fb = None\<close> / \<^verbatim>\<open>fb.attr\<close>
\<close>

definition scenario_D :: node where
  "scenario_D =
     Other ''Module''
       [Import [Alias ''foo.bar'' (Some ''fb'')],
        ClassDef [Other ''Assign'' [Name ''fb'' Store 3, Other ''Constant'' []]],
        Other ''Expr'' [Other ''Attribute'' [Name ''fb'' Load 4, Other ''Load'' []]]]"

text \<open>\<^verbatim>\<open>f = lambda: 0\<close>\<close>

definition lambda_program :: node where
  "lambda_program =
     Other ''Module''
       [Other ''Assign''
          [Name ''f'' Store 1,
           Lambda [Other ''arguments'' [], Other ''Constant'' []]]]"

text \<open>\<^verbatim>\<open>class C:\<close> / \<^verbatim>\<open>    import foo.bar\<close>\<close>

definition class_import_program :: node where
  "class_import_program =
     Other ''Module'' [ClassDef [Import [Alias ''foo.bar'' None]]]"

text \<open>\<^verbatim>\<open>class C:\<close> / \<^verbatim>\<open>    from foo import bar\<close>\<close>

definition class_importfrom_program :: node where
  "class_importfrom_program =
     Other ''Module'' [ClassDef [ImportFrom (Some ''foo'') [Alias ''bar'' None] 0]]"

subsection \<open>The relative-import rule in the specification's words\<close>

text \<open>
  The specification resolves \<open>L\<close> leading dots by stripping the last \<open>L - 1\<close>
  dot-separated components from the hosting package's name. This definition follows
  those words (one component is dropped \<open>k\<close> times); \<^const>\<open>resolve_source\<close> above follows
  the code.
\<close>

definition strip_last_components :: "nat \<Rightarrow> string \<Rightarrow> string" where
  "strip_last_components k pkg = str_join ''.'' ((butlast ^^ k) (str_split CHR ''.'' pkg))"

subsection \<open>Programs that rebind a name inside a function\<close>






subsection \<open>Records appended and names imported\<close>

text \<open>The records that \<open>st'\<close> holds beyond those of \<open>st\<close>.\<close>

definition new_records :: "collector \<Rightarrow> collector \<Rightarrow> (string \<times> string \<times> int) list" where
  "new_records st st' = drop (length (used_at st)) (used_at st')"


subsection \<open>What a visit may change in the chain\<close>

text \<open>
  \<open>same_outer c c'\<close>: the chain \<open>c'\<close> has the maps of \<open>c\<close> behind the first one, and the
  first one is still a dict when it was a dict, and is untouched when it was read-only.
\<close>

definition same_outer :: "chainmap \<Rightarrow> chainmap \<Rightarrow> bool" where
  "same_outer c c' \<longleftrightarrow>
     (case c of
        [] \<Rightarrow> False
      | Dict d # ms \<Rightarrow> (case c' of Dict d' # ms' \<Rightarrow> ms' = ms | _ \<Rightarrow> False)
      | ReadOnlyDict d # ms \<Rightarrow> c' = c)"

section \<open>Properties\<close>

subsection \<open>Writes reach the first map only\<close>

lemma same_outer_refl: "c \<noteq> [] \<Longrightarrow> same_outer c c"
  by (auto simp: same_outer_def split: list.splits frame.splits)

lemma same_outer_trans: "same_outer a b \<Longrightarrow> same_outer b c \<Longrightarrow> same_outer a c"
  by (auto simp: same_outer_def split: list.splits frame.splits)

lemma same_outer_nonempty: "same_outer a b \<Longrightarrow> b \<noteq> []"
  by (auto simp: same_outer_def split: list.splits frame.splits)

lemma same_outer_push:
  "c \<noteq> [] \<Longrightarrow> same_outer (new_child m c) c' \<Longrightarrow> parents c' = c"
  by (auto simp: same_outer_def new_child_def parents_def ChainMap_def
           split: list.splits frame.splits)

lemma chain_update_Dict:
  "chain_update (Dict d # ms) kvs =
     Inr (Dict (foldl (\<lambda>d kv. AList.update (fst kv) (snd kv) d) d kvs) # ms)"
  by (induction kvs arbitrary: d) auto

lemma chain_update_ReadOnly:
  "chain_update (ReadOnlyDict d # ms) kvs =
     (if kvs = [] then Inr (ReadOnlyDict d # ms) else Inl TypeError)"
  by (cases kvs) auto

lemma chain_update_same_outer:
  "c \<noteq> [] \<Longrightarrow> chain_update c kvs = Inr c' \<Longrightarrow> same_outer c c'"
  by (cases c; cases "hd c")
     (auto simp: same_outer_def chain_update_Dict chain_update_ReadOnly split: if_splits)

lemma set_scopes_same_outer:
  "scopes st \<noteq> [] \<Longrightarrow> set_scopes st (chain_update (scopes st) kvs) = Inr st' \<Longrightarrow>
   same_outer (scopes st) (scopes st')"
  by (auto simp: set_scopes_def split: sum.splits dest: chain_update_same_outer)

lemma visit_Name_same_outer:
  "scopes st \<noteq> [] \<Longrightarrow> visit_Name i c l st = Inr st' \<Longrightarrow> same_outer (scopes st) (scopes st')"
  by (cases "scopes st"; cases "hd (scopes st)")
     (auto simp: visit_Name_def same_outer_def split: if_splits sum.splits pyval.splits)

text \<open>
  Every visit that returns leaves the maps behind the first one as they were; a function
  or class definition pushes one map and pops it, so it leaves the whole chain as it was.
\<close>

lemma visit_same_outer:
  "visit P n st = Inr st' \<Longrightarrow> scopes st \<noteq> [] \<Longrightarrow> same_outer (scopes st) (scopes st')"
  "generic_visit P ns st = Inr st' \<Longrightarrow> scopes st \<noteq> [] \<Longrightarrow> same_outer (scopes st) (scopes st')"
proof (induction P n st and P ns st arbitrary: st' and st' rule: visit_generic_visit.induct)
  case (1 P cs st)
  then obtain st1 where
    g: "generic_visit P cs (st\<lparr>scopes := new_child (Dict []) (scopes st)\<rparr>) = Inr st1" and
    st': "st' = st1\<lparr>scopes := parents (scopes st1)\<rparr>"
    by (auto split: sum.splits)
  have "same_outer (new_child (Dict []) (scopes st)) (scopes st1)"
    using "1.IH"[OF g] by (simp add: new_child_def ChainMap_def)
  then have "parents (scopes st1) = scopes st"
    using "1.prems"(2) by (rule same_outer_push[rotated])
  then show ?case using st' "1.prems"(2) by (simp add: same_outer_refl)
next
  case (2 P cs st)
  then show ?case by simp
next
  case (3 P cs st)
  then obtain st1 where
    g: "generic_visit P cs (st\<lparr>scopes := new_child (ReadOnlyDict []) (scopes st)\<rparr>) = Inr st1" and
    st': "st' = st1\<lparr>scopes := parents (scopes st1)\<rparr>"
    by (auto split: sum.splits)
  have "same_outer (new_child (ReadOnlyDict []) (scopes st)) (scopes st1)"
    using "3.IH"[OF g] by (simp add: new_child_def ChainMap_def)
  then have "parents (scopes st1) = scopes st"
    using "3.prems"(2) by (rule same_outer_push[rotated])
  then show ?case using st' "3.prems"(2) by (simp add: same_outer_refl)
next
  case (4 P names st)
  then show ?case by (simp add: visit_Import_def set_scopes_same_outer)
next
  case (5 P module names level st)
  then show ?case by (simp add: visit_ImportFrom_def set_scopes_same_outer)
next
  case (6 P ident ctx lineno st)
  then show ?case by (simp add: visit_Name_same_outer)
next
  case (7 P cls cs st)
  then show ?case by simp
next
  case (8 P st)
  then show ?case by (simp add: same_outer_refl)
next
  case (9 P c cs st)
  then obtain st1 where v: "visit P c st = Inr st1" and g: "generic_visit P cs st1 = Inr st'"
    by (auto split: sum.splits)
  have a: "same_outer (scopes st) (scopes st1)"
    using "9.IH"(1)[OF v "9.prems"(2)] .
  then have "same_outer (scopes st1) (scopes st')"
    using "9.IH"(2)[OF v g] by (simp add: same_outer_nonempty)
  with a show ?case by (rule same_outer_trans)
qed

lemma visit_scope_restored:
  assumes "scopes st \<noteq> []"
    and "generic_visit P cs (st\<lparr>scopes := new_child m (scopes st)\<rparr>) = Inr st1"
  shows "parents (scopes st1) = scopes st"
proof -
  have "same_outer (new_child m (scopes st)) (scopes st1)"
    using visit_same_outer(2)[OF assms(2)] by (simp add: new_child_def ChainMap_def)
  with assms(1) show ?thesis by (rule same_outer_push)
qed

subsection \<open>The scenarios of the specification\<close>

text \<open>
  C1. With target module \<^verbatim>\<open>pkg.sub\<close> and hosting package \<^verbatim>\<open>pkg\<close>, the source
  \<^verbatim>\<open>from . import sub\<close> followed by \<^verbatim>\<open>sub.value\<close> gives exactly one usage record:
  origin \<^verbatim>\<open>pkg.sub\<close>, alias \<^verbatim>\<open>sub\<close>, line 2.
\<close>

theorem scenario_B_one_record:
  "collect_uses ''pkg.sub'' ''pkg'' scenario_B = Inr [(''pkg.sub'', ''sub'', 2)]"
  by code_simp

text \<open>
  C2 (as the code has it). With target module \<^verbatim>\<open>foo.bar\<close> and an empty hosting package,
  the source \<^verbatim>\<open>import foo.bar\<close> followed by \<^verbatim>\<open>foo.bar.baz()\<close> does not give the record
  (\<^verbatim>\<open>foo.bar\<close>, \<^verbatim>\<open>foo.bar\<close>, 2): the only name node of line 2 is \<^verbatim>\<open>foo\<close>.
\<close>

theorem scenario_A_record_missing:
  "collect_uses ''foo.bar'' '''' scenario_A \<noteq> Inr [(''foo.bar'', ''foo.bar'', 2)]"
  by code_simp

text \<open>
  C2 (amended). That run gives no usage record at all: the import binds the whole dotted
  path \<^verbatim>\<open>foo.bar\<close> as the local name in the module scope, and the name read at line 2,
  \<^verbatim>\<open>foo\<close>, is unbound. The same program written with an alias,
  \<^verbatim>\<open>import foo.bar as fb\<close> followed by \<^verbatim>\<open>fb.baz()\<close>, gives exactly the record
  (\<^verbatim>\<open>foo.bar\<close>, \<^verbatim>\<open>fb\<close>, 2).
\<close>

theorem scenario_A_no_record:
  "collect_uses ''foo.bar'' '''' scenario_A = Inr [] \<and>
   visit (init_params ''foo.bar'' '''') scenario_A init_collector =
     Inr \<lparr>scopes = [Dict [(''foo.bar'', Str ''foo.bar'')]], used_at = []\<rparr> \<and>
   chain_get [Dict [(''foo.bar'', Str ''foo.bar'')]] ''foo'' = PyNone \<and>
   collect_uses ''foo.bar'' '''' scenario_A_aliased = Inr [(''foo.bar'', ''fb'', 2)]"
  by code_simp

subsection \<open>Lambdas and imports in class bodies\<close>

text \<open>
  C5 (what the code does). \<^verbatim>\<open>visit_Lambda\<close> calls a method the class does not define, so
  visiting any lambda raises \<^verbatim>\<open>AttributeError\<close>, whatever the children, the parameters
  and the state; the run on \<^verbatim>\<open>f = lambda: 0\<close> ends with that error and no output.
\<close>

theorem lambda_raises:
  "visit P (Lambda cs) st = Inl AttributeError \<and>
   collect_uses ''foo.bar'' '''' lambda_program = Inl AttributeError"
  by (simp add: collect_uses_def lambda_program_def visit_Name_def init_collector_def
        ChainMap_def)

text \<open>
  C6 (what the code does). An import of the target module directly in a class body makes
  \<^verbatim>\<open>update\<close> write to the read-only scope; \<^verbatim>\<open>visit_Import\<close> and \<^verbatim>\<open>visit_ImportFrom\<close> do
  not catch the \<^verbatim>\<open>TypeError\<close>, which ends the run.
\<close>

theorem class_body_import_raises:
  "collect_uses ''foo.bar'' '''' class_import_program = Inl TypeError \<and>
   collect_uses ''foo.bar'' '''' class_importfrom_program = Inl TypeError"
  by code_simp

subsection \<open>Dotted names\<close>

lemma str_split_nonempty: "str_split c s \<noteq> []"
  by (induction s) auto

lemma str_join_split: "str_join [c] (str_split c s) = s"
proof (induction s)
  case Nil
  show ?case by simp
next
  case (Cons x xs)
  obtain y ys where r: "str_split c xs = y # ys"
    using str_split_nonempty[of c xs] by (cases "str_split c xs") auto
  show ?case using Cons r by (cases ys) auto
qed

lemma slice_to_minus_butlast: "0 \<le> k \<Longrightarrow> slice_to_minus k xs = (butlast ^^ nat k) xs"
  by (simp add: slice_to_minus_def butlast_power nat_diff_distrib')

text \<open>
  C3. For an import-from statement with \<open>L \<ge> 1\<close> leading dots, the resolved source is the
  hosting package with its last \<open>L - 1\<close> components stripped, followed by a dot and the
  written module when one is written, and that stripped package alone otherwise. With
  one dot nothing is stripped. When \<open>L - 1\<close> reaches the number of components of the
  package, the stripped base is the empty string; the resolution still gives a source.
\<close>

theorem relative_source_resolution:
  assumes "1 \<le> L"
  shows "resolve_source P module L =
           Some (strip_last_components (nat (L - 1)) (package P) @
                 (case module of None \<Rightarrow> [] | Some s \<Rightarrow> if s = [] then [] else ''.'' @ s))
         \<and> strip_last_components 0 (package P) = package P
         \<and> (int (length (str_split CHR ''.'' (package P))) \<le> L - 1 \<longrightarrow>
              strip_last_components (nat (L - 1)) (package P) = [])"
proof -
  have a: "strip_last_components 0 (package P) = package P"
    using str_join_split[of "CHR ''.''" "package P"] by (simp add: strip_last_components_def)
  have b: "resolve_source P module L =
           Some (strip_last_components (nat (L - 1)) (package P) @
                 (case module of None \<Rightarrow> [] | Some s \<Rightarrow> if s = [] then [] else ''.'' @ s))"
  proof (cases "L = 1")
    case True
    then show ?thesis using a by (simp add: resolve_source_def split: option.splits)
  next
    case False
    with assms have "1 < L" by simp
    then show ?thesis
      by (simp add: resolve_source_def strip_last_components_def slice_to_minus_butlast
            split: option.splits)
  qed
  have c: "int (length (str_split CHR ''.'' (package P))) \<le> L - 1 \<longrightarrow>
              strip_last_components (nat (L - 1)) (package P) = []"
    by (auto simp: strip_last_components_def butlast_power)
  from a b c show ?thesis by blast
qed

text \<open>
  In package \<^verbatim>\<open>a.b.c\<close>: \<^verbatim>\<open>from ...m import x\<close> (three dots) resolves to \<^verbatim>\<open>a.m\<close>, and
  five dots, which strip more components than the package has, resolve to \<^verbatim>\<open>.m\<close>.
\<close>

theorem relative_source_resolution_witness:
  "(1::int) \<le> 5 \<and>
   int (length (str_split CHR ''.'' (package (init_params ''x'' ''a.b.c'')))) \<le> 5 - 1 \<and>
   strip_last_components (nat (5 - 1)) (package (init_params ''x'' ''a.b.c'')) = [] \<and>
   resolve_source (init_params ''x'' ''a.b.c'') (Some ''m'') 5 = Some ''.m'' \<and>
   resolve_source (init_params ''x'' ''a.b.c'') (Some ''m'') 3 = Some ''a.m''"
proof -
  have h: "(1::int) \<le> 5" by simp
  have k: "(1::int) \<le> 3" by simp
  have l: "int (length (str_split CHR ''.'' (package (init_params ''x'' ''a.b.c'')))) \<le> 5 - 1"
    by (simp add: init_params_def str_rpartition_def)
  have s3: "strip_last_components (nat (3 - 1)) (package (init_params ''x'' ''a.b.c'')) = ''a''"
    by (simp add: init_params_def str_rpartition_def strip_last_components_def numeral_2_eq_2)
  from relative_source_resolution[OF h, of "init_params ''x'' ''a.b.c''" "Some ''m''"] l
  have e: "strip_last_components (nat (5 - 1)) (package (init_params ''x'' ''a.b.c'')) = []"
    and r5: "resolve_source (init_params ''x'' ''a.b.c'') (Some ''m'') 5 = Some ''.m''"
    by simp_all
  from relative_source_resolution[OF k, of "init_params ''x'' ''a.b.c''" "Some ''m''"] s3
  have r3: "resolve_source (init_params ''x'' ''a.b.c'') (Some ''m'') 3 = Some ''a.m''"
    by simp
  from h l e r5 r3 show ?thesis by blast
qed

subsection \<open>Dict comprehensions and \<^verbatim>\<open>update\<close>\<close>

lemma map_of_foldl_update:
  "map_of (foldl (\<lambda>d kv. AList.update (fst kv) (snd kv) d) d kvs) = map_of d ++ map_of (rev kvs)"
  by (induction kvs arbitrary: d) (auto simp: update_conv')

lemma distinct_foldl_update:
  "distinct (map fst d) \<Longrightarrow>
   distinct (map fst (foldl (\<lambda>d kv. AList.update (fst kv) (snd kv) d) d kvs))"
  by (induction kvs arbitrary: d) (auto simp: distinct_update)

lemma map_of_dictcomp: "map_of (dictcomp kvs) = map_of (rev kvs)"
  by (simp add: dictcomp_def map_of_foldl_update)

lemma distinct_dictcomp: "distinct (map fst (dictcomp kvs))"
  by (simp add: dictcomp_def distinct_foldl_update)

lemma map_of_rev_distinct: "distinct (map fst xs) \<Longrightarrow> map_of (rev xs) = map_of xs"
  by (rule map_of_inject_set[THEN iffD2]) (auto simp: rev_map[symmetric])

lemma dictcomp_eq_Nil: "dictcomp kvs = [] \<longleftrightarrow> kvs = []"
proof
  assume "dictcomp kvs = []"
  then have "map_of (rev kvs) = Map.empty" using map_of_dictcomp[of kvs] by simp
  then show "kvs = []" by (cases "rev kvs") (auto split: if_splits)
qed (simp add: dictcomp_def)

lemma keys_dictcomp: "fst ` set (dictcomp kvs) = fst ` set kvs"
proof -
  have "dom (map_of (dictcomp kvs)) = dom (map_of (rev kvs))"
    by (simp add: map_of_dictcomp)
  then show ?thesis by (simp add: dom_map_of_conv_image_fst)
qed

text \<open>
  Updating a chain whose first map is a dict with a comprehension never fails: the
  first map then answers with the last item of the comprehension for a key it has, and
  as before for every other key.
\<close>

lemma chain_update_dictcomp:
  "\<exists>d'. chain_update (Dict d # ms) (dictcomp kvs) = Inr (Dict d' # ms) \<and>
        map_of d' = map_of d ++ map_of (rev kvs)"
  by (simp add: chain_update_Dict map_of_foldl_update map_of_rev_distinct distinct_dictcomp
        map_of_dictcomp)

lemma map_of_const_value:
  "(k, v) \<in> set kvs \<Longrightarrow> \<forall>kv\<in>set kvs. snd kv = v \<Longrightarrow> map_of kvs k = Some v"
  by (induction kvs) auto

lemma str_rpartition_fst_neq:
  "fst (str_rpartition c s) \<noteq> [] \<Longrightarrow> fst (str_rpartition c s) \<noteq> s"
proof -
  assume a: "fst (str_rpartition c s) \<noteq> []"
  then have "c \<in> set s" by (auto simp: str_rpartition_def split: if_splits)
  then have "length (fst (str_rpartition c s)) < length s"
    by (cases s) (auto simp: str_rpartition_def Let_def)
  then show ?thesis by auto
qed

lemma str_rpartition_parts:
  assumes "c \<in> set s"
  shows "\<exists>a b. str_rpartition c s = (a, [c], b) \<and> s = a @ [c] @ b \<and> c \<notin> set b"
proof -
  obtain ys zs where sp: "rev s = ys @ c # zs" and nin: "c \<notin> set ys"
    using assms split_list_first[of c "rev s"] by auto
  have "takeWhile (\<lambda>x. x \<noteq> c) (ys @ c # zs) = ys"
    using nin by (induction ys) auto
  then have tw: "takeWhile (\<lambda>x. x \<noteq> c) (rev s) = ys"
    using sp by simp
  have s: "s = rev zs @ [c] @ rev ys"
    using sp by (metis append.assoc append_Cons append_Nil rev.simps(2) rev_append rev_rev_ident)
  have len: "length s - length ys - 1 = length zs" using s by simp
  have "take (length zs) s = rev zs" using s by simp
  then show ?thesis using assms tw s nin len by (simp add: str_rpartition_def)
qed

lemma init_params_simps:
  "modulename (init_params m p) = m" "package (init_params m p) = p"
  "modulepackage (init_params m p) = fst (str_rpartition CHR ''.'' m)"
  "modulestem (init_params m p) = snd (snd (str_rpartition CHR ''.'' m))"
  by (auto simp: init_params_def split: prod.splits)

lemma set_scopes_Inr: "set_scopes st (Inr c) = Inr (st\<lparr>scopes := c\<rparr>)"
  by (simp add: set_scopes_def)

subsection \<open>Which imports bind a name\<close>

text \<open>
  C4 (as the code has it). With target module \<^verbatim>\<open>sub\<close>, whose parent-package name is
  empty, \<^verbatim>\<open>from . import sub\<close> in a file of the empty package resolves to the empty
  source, which equals that parent-package name, and imports the stem; the statement
  binds nothing.
\<close>

theorem importfrom_empty_parent_no_binding:
  "modulepackage (init_params ''sub'' '''') = [] \<and>
   resolve_source (init_params ''sub'' '''') None 1 = Some (modulepackage (init_params ''sub'' '''')) \<and>
   name (Alias ''sub'' None) = modulestem (init_params ''sub'' '''') \<and>
   visit (init_params ''sub'' '''') (ImportFrom None [Alias ''sub'' None] 1) init_collector =
     Inr init_collector \<and>
   chain_get (scopes init_collector) ''sub'' = PyNone"
  by code_simp

text \<open>
  C4 (amended). Let the resolved source of an import-from statement equal the target
  module's parent-package name (what precedes the last dot of the target's name).
  When that name is not empty, every imported name equal to the target's stem is bound,
  under its alias if it has one and under the stem otherwise, to the target's full name
  in the first map of the chain, provided that map is a dict. When that name is empty
  (and the target's name is not), the statement binds nothing and the collector is left
  as it was: \<^verbatim>\<open>visit_ImportFrom\<close> guards the rule with \<^verbatim>\<open>self.modulepackage and ...\<close>.
\<close>

theorem importfrom_parent_package_binds:
  assumes "P = init_params m p"
    and "resolve_source P module level = Some (modulepackage P)"
  shows "(modulepackage P \<noteq> [] \<and> a \<in> set names \<and> name a = modulestem P \<and>
          scopes st = Dict d # ms \<longrightarrow>
            (\<exists>d'. visit P (ImportFrom module names level) st = Inr (st\<lparr>scopes := Dict d' # ms\<rparr>) \<and>
                  map_of d' (bound_name a) = Some (Str m))) \<and>
         (modulepackage P = [] \<and> m \<noteq> [] \<longrightarrow>
            visit P (ImportFrom module names level) st = Inr st)"
proof (intro conjI impI)
  assume h: "modulepackage P \<noteq> [] \<and> a \<in> set names \<and> name a = modulestem P \<and>
          scopes st = Dict d # ms"
  let ?kvs = "map (\<lambda>a. (bound_name a, Str (modulename P)))
                  (filter (\<lambda>a. name a = modulestem P) names)"
  have ne: "modulename P \<noteq> modulepackage P"
    using h assms(1) str_rpartition_fst_neq[of "CHR ''.''" m] by (auto simp: init_params_simps)
  have b: "importfrom_bindings P module names level = dictcomp ?kvs"
    using assms(2) h ne by (auto simp: importfrom_bindings_def)
  obtain d' where u: "chain_update (Dict d # ms) (dictcomp ?kvs) = Inr (Dict d' # ms)"
    and m: "map_of d' = map_of d ++ map_of (rev ?kvs)"
    using chain_update_dictcomp[of d ms ?kvs] by blast
  have "(bound_name a, Str (modulename P)) \<in> set (rev ?kvs)" using h by auto
  then have "map_of (rev ?kvs) (bound_name a) = Some (Str (modulename P))"
    by (rule map_of_const_value) auto
  then have "map_of d' (bound_name a) = Some (Str m)"
    using m assms(1) by (simp add: init_params_simps)
  moreover have "visit P (ImportFrom module names level) st = Inr (st\<lparr>scopes := Dict d' # ms\<rparr>)"
    using h b u by (simp add: visit_ImportFrom_def set_scopes_Inr)
  ultimately show "\<exists>d'. visit P (ImportFrom module names level) st = Inr (st\<lparr>scopes := Dict d' # ms\<rparr>) \<and>
                  map_of d' (bound_name a) = Some (Str m)" by blast
next
  assume h: "modulepackage P = [] \<and> m \<noteq> []"
  then have "importfrom_bindings P module names level = []"
    using assms by (auto simp: importfrom_bindings_def init_params_simps)
  then show "visit P (ImportFrom module names level) st = Inr st"
    by (simp add: visit_ImportFrom_def set_scopes_Inr)
qed

theorem importfrom_parent_package_binds_witness:
  "modulepackage (init_params ''pkg.sub'' ''pkg'') \<noteq> [] \<and>
   resolve_source (init_params ''pkg.sub'' ''pkg'') None 1 =
     Some (modulepackage (init_params ''pkg.sub'' ''pkg'')) \<and>
   name (Alias ''sub'' None) = modulestem (init_params ''pkg.sub'' ''pkg'') \<and>
   scopes init_collector = [Dict []] \<and>
   (\<exists>d'. visit (init_params ''pkg.sub'' ''pkg'') (ImportFrom None [Alias ''sub'' None] 1)
            init_collector = Inr (init_collector\<lparr>scopes := [Dict d']\<rparr>) \<and>
         map_of d' ''sub'' = Some (Str ''pkg.sub'')) \<and>
   modulepackage (init_params ''sub'' '''') = [] \<and>
   resolve_source (init_params ''sub'' '''') None 1 = Some (modulepackage (init_params ''sub'' '''')) \<and>
   visit (init_params ''sub'' '''') (ImportFrom None [Alias ''sub'' None] 1) init_collector =
     Inr init_collector"
proof -
  let ?P = "init_params ''pkg.sub'' ''pkg''" and ?Q = "init_params ''sub'' ''''"
  let ?a = "Alias ''sub'' None"
  have p1: "modulepackage ?P \<noteq> []" by code_simp
  have p2: "resolve_source ?P None 1 = Some (modulepackage ?P)" by code_simp
  have p3: "name ?a = modulestem ?P" by code_simp
  have p4: "scopes init_collector = [Dict []]" by code_simp
  have q1: "modulepackage ?Q = []" by code_simp
  have q2: "resolve_source ?Q None 1 = Some (modulepackage ?Q)" by code_simp
  have b: "bound_name ?a = ''sub''" by code_simp
  have "\<exists>d'. visit ?P (ImportFrom None [?a] 1) init_collector =
               Inr (init_collector\<lparr>scopes := [Dict d']\<rparr>) \<and>
             map_of d' ''sub'' = Some (Str ''pkg.sub'')"
    using importfrom_parent_package_binds[OF refl p2,
        where a = ?a and names = "[?a]" and st = init_collector and d = "[]" and ms = "[]"]
      p1 p3 p4 b by simp
  moreover have "visit ?Q (ImportFrom None [?a] 1) init_collector = Inr init_collector"
    using importfrom_parent_package_binds[OF refl q2, where names = "[?a]" and st = init_collector]
      q1 by simp
  ultimately show ?thesis using p1 p2 p3 p4 q1 q2 by blast
qed

text \<open>
  C9. A plain import statement yields a binding exactly when one of its imported paths
  equals the target module's full name; every binding it yields is to that name, and
  such a path is bound (under its alias, or under the whole path) in the first map when
  that map is a dict. When no imported path equals the target, a strict prefix of it
  included, the statement yields no binding, raises nothing and leaves the collector,
  and so the chain, as it was.
\<close>

theorem plain_import_exact_match:
  "(import_bindings P names \<noteq> [] \<longleftrightarrow> (\<exists>a\<in>set names. name a = modulename P)) \<and>
   ((k, v) \<in> set (import_bindings P names) \<longrightarrow> v = Str (modulename P)) \<and>
   (a \<in> set names \<and> name a = modulename P \<and> scopes st = Dict d # ms \<longrightarrow>
      (\<exists>d'. visit P (Import names) st = Inr (st\<lparr>scopes := Dict d' # ms\<rparr>) \<and>
            map_of d' (bound_name a) = Some (Str (modulename P)))) \<and>
   ((\<forall>a\<in>set names. name a \<noteq> modulename P) \<longrightarrow>
      import_bindings P names = [] \<and> visit P (Import names) st = Inr st)"
proof (intro conjI impI)
  let ?kvs = "map (\<lambda>a. (bound_name a, Str (name a))) (filter (\<lambda>a. name a = modulename P) names)"
  have vals: "\<forall>kv\<in>set ?kvs. snd kv = Str (modulename P)" by auto
  show "import_bindings P names \<noteq> [] \<longleftrightarrow> (\<exists>a\<in>set names. name a = modulename P)"
    by (auto simp: import_bindings_def dictcomp_eq_Nil filter_empty_conv)
  {
    assume kv: "(k, v) \<in> set (import_bindings P names)"
    then have "map_of (dictcomp ?kvs) k = Some v"
      using distinct_dictcomp[of ?kvs] by (simp add: import_bindings_def)
    then have "map_of (rev ?kvs) k = Some v" by (simp add: map_of_dictcomp)
    then have "(k, v) \<in> set (rev ?kvs)" by (rule map_of_SomeD)
    then show "v = Str (modulename P)" by auto
  }
  {
    assume h: "a \<in> set names \<and> name a = modulename P \<and> scopes st = Dict d # ms"
    obtain d' where u: "chain_update (Dict d # ms) (dictcomp ?kvs) = Inr (Dict d' # ms)"
      and m: "map_of d' = map_of d ++ map_of (rev ?kvs)"
      using chain_update_dictcomp[of d ms ?kvs] by blast
    have "(bound_name a, Str (modulename P)) \<in> set (rev ?kvs)" using h by auto
    then have "map_of (rev ?kvs) (bound_name a) = Some (Str (modulename P))"
      by (rule map_of_const_value) auto
    then have "map_of d' (bound_name a) = Some (Str (modulename P))" using m by simp
    moreover have "visit P (Import names) st = Inr (st\<lparr>scopes := Dict d' # ms\<rparr>)"
      using h u by (simp add: visit_Import_def import_bindings_def set_scopes_Inr)
    ultimately show "\<exists>d'. visit P (Import names) st = Inr (st\<lparr>scopes := Dict d' # ms\<rparr>) \<and>
            map_of d' (bound_name a) = Some (Str (modulename P))" by blast
  }
  {
    assume n: "\<forall>a\<in>set names. name a \<noteq> modulename P"
    then show e: "import_bindings P names = []"
      by (auto simp: import_bindings_def dictcomp_def filter_empty_conv)
    then show "visit P (Import names) st = Inr st"
      by (simp add: visit_Import_def set_scopes_Inr)
  }
qed

theorem plain_import_exact_match_witness:
  "name (Alias ''foo'' None) \<noteq> modulename (init_params ''foo.bar'' '''') \<and>
   import_bindings (init_params ''foo.bar'' '''') [Alias ''foo'' None] = [] \<and>
   visit (init_params ''foo.bar'' '''') (Import [Alias ''foo'' None]) init_collector =
     Inr init_collector \<and>
   name (Alias ''foo.bar'' (Some ''fb'')) = modulename (init_params ''foo.bar'' '''') \<and>
   import_bindings (init_params ''foo.bar'' '''') [Alias ''foo.bar'' (Some ''fb'')] \<noteq> [] \<and>
   (\<exists>d'. visit (init_params ''foo.bar'' '''') (Import [Alias ''foo.bar'' (Some ''fb'')])
            init_collector = Inr (init_collector\<lparr>scopes := [Dict d']\<rparr>) \<and>
         map_of d' ''fb'' = Some (Str ''foo.bar''))"
proof -
  let ?P = "init_params ''foo.bar'' ''''"
  let ?a = "Alias ''foo'' None" and ?b = "Alias ''foo.bar'' (Some ''fb'')"
  have a1: "name ?a \<noteq> modulename ?P" by code_simp
  have b1: "name ?b = modulename ?P" by code_simp
  have b2: "bound_name ?b = ''fb''" by code_simp
  have b3: "modulename ?P = ''foo.bar''" by code_simp
  have s: "scopes init_collector = [Dict []]" by code_simp
  have "import_bindings ?P [?a] = [] \<and> visit ?P (Import [?a]) init_collector = Inr init_collector"
    using plain_import_exact_match[where P = ?P and names = "[?a]" and st = init_collector] a1
    by simp
  moreover have "import_bindings ?P [?b] \<noteq> [] \<and>
     (\<exists>d'. visit ?P (Import [?b]) init_collector = Inr (init_collector\<lparr>scopes := [Dict d']\<rparr>) \<and>
           map_of d' ''fb'' = Some (Str ''foo.bar''))"
    using plain_import_exact_match[where P = ?P and names = "[?b]" and st = init_collector
        and a = ?b and d = "[]" and ms = "[]"] b1 b2 b3 s
    by simp
  ultimately show ?thesis using a1 b1 by blast
qed

subsection \<open>The records a visit appends\<close>

lemma visit_Name_appends:
  "visit_Name i c l st = Inr st' \<Longrightarrow> \<exists>new. used_at st' = used_at st @ new"
  by (auto simp: visit_Name_def split: if_splits sum.splits pyval.splits)

lemma set_scopes_used_at:
  "set_scopes st r = Inr st' \<Longrightarrow> used_at st' = used_at st"
  by (auto simp: set_scopes_def split: sum.splits)

lemma visit_appends:
  "visit P n st = Inr st' \<Longrightarrow> \<exists>new. used_at st' = used_at st @ new"
  "generic_visit P ns st = Inr st' \<Longrightarrow> \<exists>new. used_at st' = used_at st @ new"
proof (induction P n st and P ns st arbitrary: st' and st' rule: visit_generic_visit.induct)
  case (1 P cs st)
  then show ?case by (fastforce split: sum.splits)
next
  case (3 P cs st)
  then show ?case by (fastforce split: sum.splits)
next
  case (4 P names st)
  then show ?case by (auto simp: visit_Import_def dest: set_scopes_used_at)
next
  case (5 P module names level st)
  then show ?case by (auto simp: visit_ImportFrom_def dest: set_scopes_used_at)
next
  case (6 P ident ctx lineno st)
  then show ?case by (auto dest: visit_Name_appends)
next
  case (9 P c cs st)
  then obtain st1 where v: "visit P c st = Inr st1" and g: "generic_visit P cs st1 = Inr st'"
    by (auto split: sum.splits)
  from "9.IH"(1)[OF v] "9.IH"(2)[OF v g] show ?case by auto
qed auto

lemma used_at_new_records:
  "visit P n st = Inr st' \<Longrightarrow> used_at st' = used_at st @ new_records st st'"
  "generic_visit P ns st = Inr st' \<Longrightarrow> used_at st' = used_at st @ new_records st st'"
  using visit_appends(1)[of P n st st'] visit_appends(2)[of P ns st st']
  by (auto simp: new_records_def)

lemma new_records_trans:
  assumes "used_at b = used_at a @ x" "used_at c = used_at b @ y"
  shows "new_records a c = new_records a b @ new_records b c"
  using assms by (simp add: new_records_def)

subsection \<open>A masked name stays masked\<close>






subsection \<open>The records already held do not influence a visit\<close>

lemma new_records_update [simp]:
  "new_records (st\<lparr>scopes := c\<rparr>) st' = new_records st st'"
  "new_records st (st'\<lparr>scopes := c\<rparr>) = new_records st st'"
  by (simp_all add: new_records_def)

lemma visit_Name_used_at_irrelevant:
  "visit_Name i c l (st\<lparr>used_at := u\<rparr>) =
     (case visit_Name i c l st of
        Inl e \<Rightarrow> Inl e
      | Inr st' \<Rightarrow> Inr (st'\<lparr>used_at := u @ new_records st st'\<rparr>))"
  by (auto simp: visit_Name_def new_records_def split: sum.splits pyval.splits)

lemma set_scopes_used_at_irrelevant:
  "set_scopes (st\<lparr>used_at := u\<rparr>) r =
     (case set_scopes st r of
        Inl e \<Rightarrow> Inl e
      | Inr st' \<Rightarrow> Inr (st'\<lparr>used_at := u @ new_records st st'\<rparr>))"
  by (auto simp: set_scopes_def new_records_def split: sum.splits)

lemma used_at_irrelevant:
  "visit P n (st\<lparr>used_at := u\<rparr>) =
     (case visit P n st of
        Inl e \<Rightarrow> Inl e
      | Inr st' \<Rightarrow> Inr (st'\<lparr>used_at := u @ new_records st st'\<rparr>))"
  "generic_visit P ns (st\<lparr>used_at := u\<rparr>) =
     (case generic_visit P ns st of
        Inl e \<Rightarrow> Inl e
      | Inr st' \<Rightarrow> Inr (st'\<lparr>used_at := u @ new_records st st'\<rparr>))"
proof (induction P n st and P ns st arbitrary: u and u rule: visit_generic_visit.induct)
  case (1 P cs st)
  have eq: "st\<lparr>used_at := u, scopes := new_child (Dict []) (scopes st)\<rparr> =
        (st\<lparr>scopes := new_child (Dict []) (scopes st)\<rparr>)\<lparr>used_at := u\<rparr>" by simp
  show ?case
    by (simp add: eq "1.IH"[where u = u] split: sum.splits)
next
  case (2 P cs st)
  show ?case by simp
next
  case (3 P cs st)
  have eq: "st\<lparr>used_at := u, scopes := new_child (ReadOnlyDict []) (scopes st)\<rparr> =
        (st\<lparr>scopes := new_child (ReadOnlyDict []) (scopes st)\<rparr>)\<lparr>used_at := u\<rparr>" by simp
  show ?case
    by (simp add: eq "3.IH"[where u = u] split: sum.splits)
next
  case (4 P names st)
  show ?case using set_scopes_used_at_irrelevant[where st = st and u = u] by (simp add: visit_Import_def)
next
  case (5 P module names level st)
  show ?case using set_scopes_used_at_irrelevant[where st = st and u = u] by (simp add: visit_ImportFrom_def)
next
  case (6 P ident ctx lineno st)
  show ?case by (simp add: visit_Name_used_at_irrelevant)
next
  case (7 P cls cs st)
  then show ?case by simp
next
  case (8 P st)
  show ?case by (simp add: new_records_def)
next
  case (9 P c cs st)
  show ?case
  proof (cases "visit P c st")
    case (Inl e)
    then show ?thesis using "9.IH"(1)[where u = u] by simp
  next
    case (Inr st1)
    note v = this
    show ?thesis
    proof (cases "generic_visit P cs st1")
      case (Inl e)
      then show ?thesis using "9.IH"(1)[where u = u] "9.IH"(2)[OF v, where u = "u @ new_records st st1"] v
        by simp
    next
      case (Inr st2)
      have "new_records st st2 = new_records st st1 @ new_records st1 st2"
        using used_at_new_records(1)[OF v] used_at_new_records(2)[OF Inr]
        by (rule new_records_trans)
      then show ?thesis
        using "9.IH"(1)[where u = u] "9.IH"(2)[OF v, where u = "u @ new_records st st1"] v Inr by simp
    qed
  qed
qed

lemma collector_eq_used_at:
  fixes a b :: collector
  shows "scopes a = scopes b \<Longrightarrow> b = a\<lparr>used_at := used_at b\<rparr>"
  by (cases a; cases b) simp

subsection \<open>Shadowing in function and class bodies\<close>




text \<open>
  C8. With target \<^verbatim>\<open>foo.bar\<close>, Scenario D gives exactly the record (\<^verbatim>\<open>foo.bar\<close>, \<^verbatim>\<open>fb\<close>, 4).
  A store or deletion of a name visited while the first map is the read-only scope of a
  class body returns the collector as it was, so no map of the chain changes; and every
  class definition visited without error leaves the chain as it was before it.
\<close>

theorem class_body_write_inert:
  "collect_uses ''foo.bar'' '''' scenario_D = Inr [(''foo.bar'', ''fb'', 4)] \<and>
   (ctx \<noteq> Load \<and> scopes s = ReadOnlyDict d # ms \<longrightarrow> visit P (Name x ctx l) s = Inr s) \<and>
   (scopes st \<noteq> [] \<and> visit P (ClassDef body) st = Inr st' \<longrightarrow> scopes st' = scopes st)"
proof (intro conjI impI)
  show "collect_uses ''foo.bar'' '''' scenario_D = Inr [(''foo.bar'', ''fb'', 4)]"
    by code_simp
next
  assume "ctx \<noteq> Load \<and> scopes s = ReadOnlyDict d # ms"
  then show "visit P (Name x ctx l) s = Inr s" by (simp add: visit_Name_def)
next
  assume "scopes st \<noteq> [] \<and> visit P (ClassDef body) st = Inr st'"
  then show "scopes st' = scopes st"
    using visit_scope_restored[of st P body "ReadOnlyDict []"] by (auto split: sum.splits)
qed

theorem class_body_write_inert_witness:
  "Store \<noteq> Load \<and>
   scopes \<lparr>scopes = [ReadOnlyDict [], Dict [(''fb'', Str ''foo.bar'')]], used_at = []\<rparr> =
     ReadOnlyDict [] # [Dict [(''fb'', Str ''foo.bar'')]] \<and>
   visit (init_params ''foo.bar'' '''') (Name ''fb'' Store 3)
     \<lparr>scopes = [ReadOnlyDict [], Dict [(''fb'', Str ''foo.bar'')]], used_at = []\<rparr> =
     Inr \<lparr>scopes = [ReadOnlyDict [], Dict [(''fb'', Str ''foo.bar'')]], used_at = []\<rparr> \<and>
   scopes \<lparr>scopes = [Dict [(''fb'', Str ''foo.bar'')]], used_at = []\<rparr> \<noteq> [] \<and>
   visit (init_params ''foo.bar'' '''')
     (ClassDef [Other ''Assign'' [Name ''fb'' Store 3, Other ''Constant'' []]])
     \<lparr>scopes = [Dict [(''fb'', Str ''foo.bar'')]], used_at = []\<rparr> =
     Inr \<lparr>scopes = [Dict [(''fb'', Str ''foo.bar'')]], used_at = []\<rparr> \<and>
   scopes \<lparr>scopes = [Dict [(''fb'', Str ''foo.bar'')]], used_at = []\<rparr> =
     scopes \<lparr>scopes = [Dict [(''fb'', Str ''foo.bar'')]], used_at = []\<rparr> \<and>
   chain_get [Dict [(''fb'', Str ''foo.bar'')]] ''fb'' = Str ''foo.bar''"
proof -
  let ?P = "init_params ''foo.bar'' ''''"
  let ?outer = "\<lparr>scopes = [Dict [(''fb'', Str ''foo.bar'')]], used_at = []\<rparr>"
  let ?cls = "\<lparr>scopes = [ReadOnlyDict [], Dict [(''fb'', Str ''foo.bar'')]], used_at = []\<rparr>"
  let ?body = "[Other ''Assign'' [Name ''fb'' Store 3, Other ''Constant'' []]]"
  have a1: "Store \<noteq> Load" by simp
  have a2: "scopes ?cls = ReadOnlyDict [] # [Dict [(''fb'', Str ''foo.bar'')]]" by simp
  have b1: "scopes ?outer \<noteq> []" by simp
  have b2: "visit ?P (ClassDef ?body) ?outer = Inr ?outer" by code_simp
  have g: "chain_get [Dict [(''fb'', Str ''foo.bar'')]] ''fb'' = Str ''foo.bar''" by code_simp
  note t = class_body_write_inert[where P = ?P and ctx = Store and s = ?cls and d = "[]"
             and ms = "[Dict [(''fb'', Str ''foo.bar'')]]" and x = "''fb''" and l = 3
             and st = ?outer and body = ?body and st' = ?outer]
  note B = t[THEN conjunct2, THEN conjunct1, THEN mp, OF conjI[OF a1 a2]]
  note C = t[THEN conjunct2, THEN conjunct2, THEN mp, OF conjI[OF b1 b2]]
  show ?thesis by (rule conjI a1 a2 B b1 b2 C g)+
qed

subsection \<open>Determinism\<close>

text \<open>
  C10. The result of a run is a function of the tree, the target module and the hosting
  package. Two visits of the same tree with the same parameters, from collectors that
  have the same chain, end alike whatever records the collectors already hold: both
  raise the same error, or both return, with the same chain and the same new records in
  the same order. In particular the output of a run is what a visit from any collector
  with a fresh chain appends.
\<close>

theorem analyzer_deterministic:
  "(scopes st1 = scopes st2 \<longrightarrow>
      (case (visit P n st1, visit P n st2) of
         (Inl e1, Inl e2) \<Rightarrow> e1 = e2
       | (Inr a, Inr b) \<Rightarrow> scopes a = scopes b \<and> new_records st1 a = new_records st2 b
       | _ \<Rightarrow> False)) \<and>
   (scopes st = scopes init_collector \<longrightarrow>
      collect_uses m p n =
        (case visit (init_params m p) n st of
           Inl e \<Rightarrow> Inl e
         | Inr st' \<Rightarrow> Inr (new_records st st')))"
proof (intro conjI impI)
  assume h: "scopes st1 = scopes st2"
  then have e: "st2 = st1\<lparr>used_at := used_at st2\<rparr>" by (rule collector_eq_used_at)
  have "visit P n st2 = (case visit P n st1 of
        Inl e \<Rightarrow> Inl e
      | Inr st' \<Rightarrow> Inr (st'\<lparr>used_at := used_at st2 @ new_records st1 st'\<rparr>))"
    using used_at_irrelevant(1)[where P = P and n = n and st = st1 and u = "used_at st2"] e by simp
  then show "case (visit P n st1, visit P n st2) of
         (Inl e1, Inl e2) \<Rightarrow> e1 = e2
       | (Inr a, Inr b) \<Rightarrow> scopes a = scopes b \<and> new_records st1 a = new_records st2 b
       | _ \<Rightarrow> False"
    by (auto simp: new_records_def split: sum.splits)
next
  assume h: "scopes st = scopes init_collector"
  then have e: "st = init_collector\<lparr>used_at := used_at st\<rparr>"
    using collector_eq_used_at[of init_collector st] by simp
  have "visit (init_params m p) n st = (case visit (init_params m p) n init_collector of
        Inl e \<Rightarrow> Inl e
      | Inr st' \<Rightarrow> Inr (st'\<lparr>used_at := used_at st @ new_records init_collector st'\<rparr>))"
    using used_at_irrelevant(1)[where P = "init_params m p" and n = n and st = init_collector and u = "used_at st"] e by simp
  moreover have "\<And>st'. visit (init_params m p) n init_collector = Inr st' \<Longrightarrow>
      used_at st' = new_records init_collector st'"
    using used_at_new_records(1)[of "init_params m p" n init_collector]
    by (simp add: init_collector_def)
  ultimately show "collect_uses m p n =
        (case visit (init_params m p) n st of
           Inl e \<Rightarrow> Inl e
         | Inr st' \<Rightarrow> Inr (new_records st st'))"
    by (auto simp: collect_uses_def new_records_def split: sum.splits)
qed

theorem analyzer_deterministic_witness:
  "scopes init_collector = scopes (init_collector\<lparr>used_at := [(''a'', ''b'', 1)]\<rparr>) \<and>
   visit (init_params ''foo.bar'' '''') scenario_C init_collector =
     Inr \<lparr>scopes = [Dict [(''fb'', Str ''foo.bar'')]], used_at = [(''foo.bar'', ''fb'', 5)]\<rparr> \<and>
   (\<exists>b. visit (init_params ''foo.bar'' '''') scenario_C
           (init_collector\<lparr>used_at := [(''a'', ''b'', 1)]\<rparr>) = Inr b \<and>
        scopes b = [Dict [(''fb'', Str ''foo.bar'')]] \<and>
        new_records (init_collector\<lparr>used_at := [(''a'', ''b'', 1)]\<rparr>) b = [(''foo.bar'', ''fb'', 5)]) \<and>
   collect_uses ''foo.bar'' '''' scenario_C = Inr [(''foo.bar'', ''fb'', 5)]"
proof -
  let ?P = "init_params ''foo.bar'' ''''"
  let ?st2 = "init_collector\<lparr>used_at := [(''a'', ''b'', 1)]\<rparr>"
  let ?a = "\<lparr>scopes = [Dict [(''fb'', Str ''foo.bar'')]], used_at = [(''foo.bar'', ''fb'', 5)]\<rparr>"
  have h: "scopes init_collector = scopes ?st2" by simp
  have h2: "scopes ?st2 = scopes init_collector" by simp
  have v: "visit ?P scenario_C init_collector = Inr ?a" by code_simp
  have n: "new_records init_collector ?a = [(''foo.bar'', ''fb'', 5)]" by code_simp
  have sa: "scopes ?a = [Dict [(''fb'', Str ''foo.bar'')]]" by simp
  note t = analyzer_deterministic[where ?st1.0 = init_collector and ?st2.0 = ?st2 and P = ?P
      and n = scenario_C and st = ?st2 and m = "''foo.bar''" and p = "''''"]
  note K = t[THEN conjunct1, THEN mp, OF h]
  note L = t[THEN conjunct2, THEN mp, OF h2]
  have B: "\<exists>b. visit ?P scenario_C ?st2 = Inr b \<and> scopes b = [Dict [(''fb'', Str ''foo.bar'')]] \<and>
        new_records ?st2 b = [(''foo.bar'', ''fb'', 5)]"
  proof (cases "visit ?P scenario_C ?st2")
    case (Inl e)
    with K v show ?thesis by simp
  next
    case (Inr b)
    have k: "scopes ?a = scopes b \<and> new_records init_collector ?a = new_records ?st2 b"
      using K unfolding v Inr by (simp only: prod.case sum.case)
    note k1 = trans[OF k[THEN conjunct1, symmetric] sa]
    note k2 = trans[OF k[THEN conjunct2, symmetric] n]
    from Inr k1 k2 show ?thesis by blast
  qed
  then obtain b where vb: "visit ?P scenario_C ?st2 = Inr b"
    and nb: "new_records ?st2 b = [(''foo.bar'', ''fb'', 5)]" by blast
  have R: "collect_uses ''foo.bar'' '''' scenario_C = Inr [(''foo.bar'', ''fb'', 5)]"
    using L nb unfolding vb by simp
  show ?thesis by (rule conjI h v B R)+
qed

end
